theory Spec2Isabelle
  imports Main "HOL-Library.Monad_Syntax" "HOL-Library.Multiset"
begin

section \<open>Configuration constants\<close>

text \<open>
  The two macros of the source file: \<^verbatim>\<open>#define MAX_EMAIL_LENGTH 256\<close> and
  \<^verbatim>\<open>#define MIN_EMAIL_LENGTH 5\<close>.
\<close>

definition MAX_EMAIL_LENGTH :: int where
  "MAX_EMAIL_LENGTH = 256"

definition MIN_EMAIL_LENGTH :: int where
  "MIN_EMAIL_LENGTH = 5"

section \<open>C strings, pointers and memory reads\<close>

text \<open>
  The argument of \<^verbatim>\<open>is_valid_email\<close> is a \<^verbatim>\<open>const char*\<close>: either the null pointer or the
  address of a NUL-terminated byte string. A string is modelled by the bytes that stand
  before its terminator, so it holds no NUL byte, and its length is what \<^verbatim>\<open>strlen\<close>
  returns. Its length is not bounded.
\<close>

definition is_cstring :: "string \<Rightarrow> bool" where
  "is_cstring s \<longleftrightarrow> CHR 0x00 \<notin> set s"

typedef cstring = "{s. is_cstring s}"
  morphisms chars Abs_cstring
  by (rule exI [of _ "[]"]) (simp add: is_cstring_def)

setup_lifting type_definition_cstring

lift_definition cstr :: "string \<Rightarrow> cstring" is
  "\<lambda>s. if is_cstring s then s else []"
  by (simp add: is_cstring_def)

text \<open>
  Line 37, \<^verbatim>\<open>int len = strlen(email)\<close>: \<^verbatim>\<open>strlen\<close> returns a \<^verbatim>\<open>size_t\<close> and the initialisation
  converts it to \<^verbatim>\<open>int\<close>, here of 32 bits. A length up to \<^verbatim>\<open>INT_MAX\<close> keeps its value. For a
  greater one C leaves the result to the implementation; the model takes what the
  compilers of the usual 64-bit platforms define: the value is reduced modulo \<open>2^32\<close>
  into the range of \<^verbatim>\<open>int\<close>. Every other \<^verbatim>\<open>int\<close> of the function stays between \<open>-1\<close> and
  \<open>257\<close>, so those are plain integers.
\<close>

definition INT_MAX :: int where
  "INT_MAX = 2147483647"

definition int_of_size_t :: "nat \<Rightarrow> int" where
  "int_of_size_t n =
     (let k = int n mod 4294967296 in if k \<le> INT_MAX then k else k - 4294967296)"

datatype 'a ptr = NULL | Ptr 'a

text \<open>
  A read \<^verbatim>\<open>email[i]\<close>. The object the pointer refers to consists of the bytes of the string
  and the terminator behind them; a read at any other index is outside the object and
  is the value \<open>None\<close>, which every caller hands on.
\<close>

definition peek :: "string \<Rightarrow> int \<Rightarrow> char option" where
  "peek s i =
     (if 0 \<le> i \<and> i < int (length s) then Some (s ! nat i)
      else if i = int (length s) then Some (CHR 0x00)
      else None)"

section \<open>Character classification\<close>

text \<open>
  The program never calls \<^verbatim>\<open>setlocale\<close>, so \<^verbatim>\<open>isspace\<close> and \<^verbatim>\<open>isalnum\<close> of \<^verbatim>\<open>ctype.h\<close> classify
  in the "C" locale: the white-space characters are space, \<^verbatim>\<open>\t\<close>, \<^verbatim>\<open>\n\<close>, \<^verbatim>\<open>\v\<close>, \<^verbatim>\<open>\f\<close> and
  \<^verbatim>\<open>\r\<close> (codes 32 and 9 to 13), the alphanumeric ones are the ASCII digits and letters.
  The functions are modelled on the byte itself. A byte above 127 belongs to neither
  class; where \<^verbatim>\<open>char\<close> is signed the code passes such a byte as a negative number, which
  the C libraries in common use classify the same way (the C standard leaves that call
  undefined).
\<close>

definition isspace :: "char \<Rightarrow> bool" where
  "isspace c \<longleftrightarrow> c = CHR '' '' \<or> (9 \<le> (of_char c :: nat) \<and> (of_char c :: nat) \<le> 13)"

definition isdigit :: "char \<Rightarrow> bool" where
  "isdigit c \<longleftrightarrow> 48 \<le> (of_char c :: nat) \<and> (of_char c :: nat) \<le> 57"

definition isupper :: "char \<Rightarrow> bool" where
  "isupper c \<longleftrightarrow> 65 \<le> (of_char c :: nat) \<and> (of_char c :: nat) \<le> 90"

definition islower :: "char \<Rightarrow> bool" where
  "islower c \<longleftrightarrow> 97 \<le> (of_char c :: nat) \<and> (of_char c :: nat) \<le> 122"

definition isalpha :: "char \<Rightarrow> bool" where
  "isalpha c \<longleftrightarrow> isupper c \<or> islower c"

definition isalnum :: "char \<Rightarrow> bool" where
  "isalnum c \<longleftrightarrow> isalpha c \<or> isdigit c"

section \<open>The validator\<close>

text \<open>
  A loop of the function either leaves the function with \<^verbatim>\<open>return false\<close> or runs to its
  end and hands its variables on.
\<close>

datatype 'a flow = Return bool | Next 'a

text \<open>
  Lines 49 to 58: the scan of the whole candidate that records the position of \<^verbatim>\<open>@\<close>,
  counts its occurrences and returns false at a white-space character.
\<close>

function scan_loop :: "string \<Rightarrow> int \<Rightarrow> int \<Rightarrow> int \<Rightarrow> int \<Rightarrow> (int \<times> int) flow option" where
  "scan_loop email len i at_pos at_count =
     (if i < len then
        do {
          c \<leftarrow> peek email i;
          let at_pos' = (if c = CHR ''@'' then i else at_pos);
          let at_count' = (if c = CHR ''@'' then at_count + 1 else at_count);
          if isspace c then Some (Return False)
          else scan_loop email len (i + 1) at_pos' at_count'
        }
      else Some (Next (at_pos, at_count)))"
  by pat_completeness auto
termination
  by (relation "measure (\<lambda>(email, len, i, at_pos, at_count). nat (len - i))") auto

text \<open>Lines 77 to 81: two adjacent dots in the local part.\<close>

function local_dots_loop :: "string \<Rightarrow> int \<Rightarrow> int \<Rightarrow> unit flow option" where
  "local_dots_loop email at_pos i =
     (if i < at_pos - 1 then
        do {
          c \<leftarrow> peek email i;
          if c = CHR ''.'' then
            do {
              d \<leftarrow> peek email (i + 1);
              if d = CHR ''.'' then Some (Return False)
              else local_dots_loop email at_pos (i + 1)
            }
          else local_dots_loop email at_pos (i + 1)
        }
      else Some (Next ()))"
  by pat_completeness auto
termination
  by (relation "measure (\<lambda>(email, at_pos, i). nat (at_pos - 1 - i))") auto

text \<open>
  Line 84: \<^verbatim>\<open>domain = email + at_pos + 1\<close>, so \<^verbatim>\<open>domain[j]\<close> reads \<^verbatim>\<open>email[at_pos + 1 + j]\<close>.
\<close>

definition peek_domain :: "string \<Rightarrow> int \<Rightarrow> int \<Rightarrow> char option" where
  "peek_domain email at_pos j = peek email (at_pos + 1 + j)"

text \<open>Lines 97 to 102: the position of the last dot of the domain and the number of dots.\<close>

function last_dot_loop :: "string \<Rightarrow> int \<Rightarrow> int \<Rightarrow> int \<Rightarrow> int \<Rightarrow> int \<Rightarrow> (int \<times> int) option" where
  "last_dot_loop email at_pos domain_len i last_dot_pos dot_count =
     (if i < domain_len then
        do {
          c \<leftarrow> peek_domain email at_pos i;
          if c = CHR ''.'' then last_dot_loop email at_pos domain_len (i + 1) i (dot_count + 1)
          else last_dot_loop email at_pos domain_len (i + 1) last_dot_pos dot_count
        }
      else Some (last_dot_pos, dot_count))"
  by pat_completeness auto
termination
  by (relation "measure (\<lambda>(email, at_pos, domain_len, i, last_dot_pos, dot_count). nat (domain_len - i))") auto

text \<open>Lines 115 to 119: two adjacent dots in the domain.\<close>

function domain_dots_loop :: "string \<Rightarrow> int \<Rightarrow> int \<Rightarrow> int \<Rightarrow> unit flow option" where
  "domain_dots_loop email at_pos domain_len i =
     (if i < domain_len - 1 then
        do {
          c \<leftarrow> peek_domain email at_pos i;
          if c = CHR ''.'' then
            do {
              d \<leftarrow> peek_domain email at_pos (i + 1);
              if d = CHR ''.'' then Some (Return False)
              else domain_dots_loop email at_pos domain_len (i + 1)
            }
          else domain_dots_loop email at_pos domain_len (i + 1)
        }
      else Some (Next ()))"
  by pat_completeness auto
termination
  by (relation "measure (\<lambda>(email, at_pos, domain_len, i). nat (domain_len - 1 - i))") auto

text \<open>Lines 123 to 128: the characters of the local part.\<close>

function local_chars_loop :: "string \<Rightarrow> int \<Rightarrow> int \<Rightarrow> unit flow option" where
  "local_chars_loop email at_pos i =
     (if i < at_pos then
        do {
          c \<leftarrow> peek email i;
          if \<not> isalnum c \<and> c \<noteq> CHR ''.'' \<and> c \<noteq> CHR ''-'' \<and> c \<noteq> CHR ''_'' \<and> c \<noteq> CHR ''+''
          then Some (Return False)
          else local_chars_loop email at_pos (i + 1)
        }
      else Some (Next ()))"
  by pat_completeness auto
termination
  by (relation "measure (\<lambda>(email, at_pos, i). nat (at_pos - i))") auto

text \<open>Lines 132 to 136: the characters of the domain.\<close>

function domain_chars_loop :: "string \<Rightarrow> int \<Rightarrow> int \<Rightarrow> int \<Rightarrow> unit flow option" where
  "domain_chars_loop email at_pos domain_len i =
     (if i < domain_len then
        do {
          c \<leftarrow> peek_domain email at_pos i;
          if \<not> isalnum c \<and> c \<noteq> CHR ''.'' \<and> c \<noteq> CHR ''-''
          then Some (Return False)
          else domain_chars_loop email at_pos domain_len (i + 1)
        }
      else Some (Next ()))"
  by pat_completeness auto
termination
  by (relation "measure (\<lambda>(email, at_pos, domain_len, i). nat (domain_len - i))") auto

text \<open>
  Lines 72 to 74 and 88 to 91: the edge tests, with the short-circuit evaluation of
  \<^verbatim>\<open>||\<close> (a later operand is read only when the earlier ones are false).
\<close>

definition local_edge_is_dot :: "string \<Rightarrow> int \<Rightarrow> bool option" where
  "local_edge_is_dot email at_pos =
     do {
       c \<leftarrow> peek email 0;
       if c = CHR ''.'' then Some True
       else do { d \<leftarrow> peek email (at_pos - 1); Some (d = CHR ''.'') }
     }"

definition domain_edge_is_dot_or_hyphen :: "string \<Rightarrow> int \<Rightarrow> int \<Rightarrow> bool option" where
  "domain_edge_is_dot_or_hyphen email at_pos domain_len =
     do {
       c \<leftarrow> peek_domain email at_pos 0;
       if c = CHR ''.'' \<or> c = CHR ''-'' then Some True
       else do {
         d \<leftarrow> peek_domain email at_pos (domain_len - 1);
         Some (d = CHR ''.'' \<or> d = CHR ''-'')
       }
     }"

text \<open>
  The body of \<^verbatim>\<open>is_valid_email\<close> behind the null test, in the order of the source:
  \<open>validate_domain\<close> is lines 84 to 139, \<open>validate_body\<close> lines 40 to 139 with the value of
  \<^verbatim>\<open>len\<close>, and \<open>validate\<close> sets \<^verbatim>\<open>len\<close> as line 37 does. The result \<open>None\<close> stands for a read
  outside the string; \<open>Some b\<close> is the returned boolean.
\<close>

definition validate_domain :: "string \<Rightarrow> int \<Rightarrow> int \<Rightarrow> bool option" where
  "validate_domain email len at_pos =
     (let domain_len = len - at_pos - 1 in
      do {
        edge \<leftarrow> domain_edge_is_dot_or_hyphen email at_pos domain_len;
        if edge then Some False
        else do {
          (last_dot_pos, dot_count) \<leftarrow> last_dot_loop email at_pos domain_len 0 (- 1) 0;
          if dot_count = 0 then Some False
          else if domain_len - last_dot_pos - 1 < 2 then Some False
          else do {
            r \<leftarrow> domain_dots_loop email at_pos domain_len 0;
            case r of
              Return b \<Rightarrow> Some b
            | Next _ \<Rightarrow>
                do {
                  r \<leftarrow> local_chars_loop email at_pos 0;
                  case r of
                    Return b \<Rightarrow> Some b
                  | Next _ \<Rightarrow>
                      do {
                        r \<leftarrow> domain_chars_loop email at_pos domain_len 0;
                        case r of
                          Return b \<Rightarrow> Some b
                        | Next _ \<Rightarrow> Some True
                      }
                }
          }
        }
      })"

definition validate_body :: "string \<Rightarrow> int \<Rightarrow> bool option" where
  "validate_body email len =
     (if len < MIN_EMAIL_LENGTH \<or> len > MAX_EMAIL_LENGTH then Some False
      else do {
        r \<leftarrow> scan_loop email len 0 (- 1) 0;
        case r of
          Return b \<Rightarrow> Some b
        | Next (at_pos, at_count) \<Rightarrow>
            if at_count \<noteq> 1 then Some False
            else if at_pos = 0 \<or> at_pos = len - 1 then Some False
            else do {
              edge \<leftarrow> local_edge_is_dot email at_pos;
              if edge then Some False
              else do {
                r \<leftarrow> local_dots_loop email at_pos 0;
                case r of
                  Return b \<Rightarrow> Some b
                | Next _ \<Rightarrow> validate_domain email len at_pos
              }
            }
      })"

definition validate :: "string \<Rightarrow> bool option" where
  "validate email = (let len = int_of_size_t (length email) in validate_body email len)"

definition is_valid_email :: "cstring ptr \<Rightarrow> bool option" where
  "is_valid_email email =
     (case email of
        NULL \<Rightarrow> Some False
      | Ptr e \<Rightarrow> validate (chars e))"

section \<open>The checks of the specification\<close>

text \<open>
  The specification states the algorithm as twelve checks on the candidate, its local
  part (the text before the separating \<^verbatim>\<open>@\<close>) and its domain part (the text behind it).
  The definitions of this section follow the words of the specification, not the code;
  the theorems below compare the two. Each check is a total predicate on the candidate:
  where the candidate has no \<^verbatim>\<open>@\<close> its local part is the whole candidate and its domain
  part is empty, and where it has several, the first one separates.
\<close>

definition separator_position :: "string \<Rightarrow> nat" where
  "separator_position s = length (takeWhile (\<lambda>c. c \<noteq> CHR ''@'') s)"

definition local_part :: "string \<Rightarrow> string" where
  "local_part s = take (separator_position s) s"

definition domain_part :: "string \<Rightarrow> string" where
  "domain_part s = drop (separator_position s + 1) s"

text \<open>The top-level domain: the text of the domain part behind its last dot.\<close>

definition tld :: "string \<Rightarrow> string" where
  "tld d = rev (takeWhile (\<lambda>c. c \<noteq> CHR ''.'') (rev d))"

definition starts_with :: "char set \<Rightarrow> string \<Rightarrow> bool" where
  "starts_with A s = (case s of [] \<Rightarrow> False | c # _ \<Rightarrow> c \<in> A)"

definition ends_with :: "char set \<Rightarrow> string \<Rightarrow> bool" where
  "ends_with A s = starts_with A (rev s)"

fun consecutive_dots :: "string \<Rightarrow> bool" where
  "consecutive_dots (a # b # cs) =
     ((a = CHR ''.'' \<and> b = CHR ''.'') \<or> consecutive_dots (b # cs))"
| "consecutive_dots [a] = False"
| "consecutive_dots [] = False"

text \<open>Check 2, with the bound as the specification words it: minimum included, maximum excluded.\<close>

definition check_length :: "string \<Rightarrow> bool" where
  "check_length s \<longleftrightarrow>
     MIN_EMAIL_LENGTH \<le> int (length s) \<and> int (length s) < MAX_EMAIL_LENGTH"

text \<open>Check 3.\<close>

definition check_no_whitespace :: "string \<Rightarrow> bool" where
  "check_no_whitespace s \<longleftrightarrow> \<not> list_ex isspace s"

text \<open>Check 4.\<close>

definition check_one_separator :: "string \<Rightarrow> bool" where
  "check_one_separator s \<longleftrightarrow> count_list s (CHR ''@'') = 1"

text \<open>Check 5: the position \<open>p\<close> of the separator is neither \<open>0\<close> nor \<open>length - 1\<close>.\<close>

definition check_separator_inside :: "string \<Rightarrow> bool" where
  "check_separator_inside s \<longleftrightarrow>
     separator_position s \<noteq> 0 \<and> int (separator_position s) \<noteq> int (length s) - 1"

text \<open>Check 6.\<close>

definition check_local_edges :: "string \<Rightarrow> bool" where
  "check_local_edges s \<longleftrightarrow>
     \<not> starts_with {CHR ''.''} (local_part s) \<and> \<not> ends_with {CHR ''.''} (local_part s)"

text \<open>Check 7.\<close>

definition check_local_dots :: "string \<Rightarrow> bool" where
  "check_local_dots s \<longleftrightarrow> \<not> consecutive_dots (local_part s)"

text \<open>Check 8.\<close>

definition check_domain_edges :: "string \<Rightarrow> bool" where
  "check_domain_edges s \<longleftrightarrow>
     \<not> starts_with {CHR ''.'', CHR ''-''} (domain_part s) \<and>
     \<not> ends_with {CHR ''.'', CHR ''-''} (domain_part s)"

text \<open>Check 9.\<close>

definition check_domain_has_dot :: "string \<Rightarrow> bool" where
  "check_domain_has_dot s \<longleftrightarrow> CHR ''.'' \<in> set (domain_part s)"

text \<open>Check 10.\<close>

definition check_tld :: "string \<Rightarrow> bool" where
  "check_tld s \<longleftrightarrow> 2 \<le> length (tld (domain_part s))"

text \<open>Check 11.\<close>

definition check_domain_dots :: "string \<Rightarrow> bool" where
  "check_domain_dots s \<longleftrightarrow> \<not> consecutive_dots (domain_part s)"

text \<open>Check 12.\<close>

definition local_char_ok :: "char \<Rightarrow> bool" where
  "local_char_ok c \<longleftrightarrow>
     isalnum c \<or> c = CHR ''.'' \<or> c = CHR ''-'' \<or> c = CHR ''_'' \<or> c = CHR ''+''"

definition check_local_class :: "string \<Rightarrow> bool" where
  "check_local_class s \<longleftrightarrow> list_all local_char_ok (local_part s)"

text \<open>Check 13.\<close>

definition domain_char_ok :: "char \<Rightarrow> bool" where
  "domain_char_ok c \<longleftrightarrow> isalnum c \<or> c = CHR ''.'' \<or> c = CHR ''-''"

definition check_domain_class :: "string \<Rightarrow> bool" where
  "check_domain_class s \<longleftrightarrow> list_all domain_char_ok (domain_part s)"

text \<open>The checks in the order of the specification, and their short-circuit conjunction.\<close>

definition spec_checks :: "(string \<Rightarrow> bool) list" where
  "spec_checks =
     [check_length, check_no_whitespace, check_one_separator, check_separator_inside,
      check_local_edges, check_local_dots, check_domain_edges, check_domain_has_dot,
      check_tld, check_domain_dots, check_local_class, check_domain_class]"

fun conjunction :: "(string \<Rightarrow> bool) list \<Rightarrow> string \<Rightarrow> bool" where
  "conjunction [] s = True"
| "conjunction (p # ps) s = (if p s then conjunction ps s else False)"

text \<open>
  The test of lines 40 to 42 as the code has it: both bounds are included.
\<close>

definition length_in_range :: "string \<Rightarrow> bool" where
  "length_in_range s \<longleftrightarrow>
     \<not> (int (length s) < MIN_EMAIL_LENGTH \<or> int (length s) > MAX_EMAIL_LENGTH)"

text \<open>
  A valid address of 256 characters: a local part of 244 letters, the separator and a
  domain of 11 characters.
\<close>

definition address_256 :: string where
  "address_256 = replicate 244 (CHR ''a'') @ ''@example.com''"

text \<open>The ASCII letters and digits, written out.\<close>

definition ascii_letters :: string where
  "ascii_letters = ''abcdefghijklmnopqrstuvwxyzABCDEFGHIJKLMNOPQRSTUVWXYZ''"

definition ascii_digits :: string where
  "ascii_digits = ''0123456789''"

definition whitespace_characters :: string where
  "whitespace_characters = [CHR '' '', CHR 0x09, CHR 0x0A, CHR 0x0B, CHR 0x0C, CHR 0x0D]"

text \<open>The checks of the specification other than check 10.\<close>

definition checks_other_than_tld :: "(string \<Rightarrow> bool) list" where
  "checks_other_than_tld =
     [check_length, check_no_whitespace, check_one_separator, check_separator_inside,
      check_local_edges, check_local_dots, check_domain_edges, check_domain_has_dot,
      check_domain_dots, check_local_class, check_domain_class]"

text \<open>The checks of the specification other than check 13.\<close>

definition checks_other_than_domain_class :: "(string \<Rightarrow> bool) list" where
  "checks_other_than_domain_class =
     [check_length, check_no_whitespace, check_one_separator, check_separator_inside,
      check_local_edges, check_local_dots, check_domain_edges, check_domain_has_dot,
      check_tld, check_domain_dots, check_local_class]"

text \<open>
  What the tests of the code ask of the text they read: the length test of lines 40 to
  42 and the eleven checks behind it.
\<close>

definition passes_all_tests :: "string \<Rightarrow> bool" where
  "passes_all_tests t \<longleftrightarrow>
     length_in_range t \<and> check_no_whitespace t \<and> check_one_separator t \<and>
     check_separator_inside t \<and> check_local_edges t \<and> check_local_dots t \<and>
     check_domain_edges t \<and> check_domain_has_dot t \<and> check_tld t \<and>
     check_domain_dots t \<and> check_local_class t \<and> check_domain_class t"

text \<open>
  A string of \<open>2^32 + 6\<close> bytes: the valid address \<^verbatim>\<open>a@b.cd\<close> followed by \<open>2^32\<close> copies of a
  filler byte.
\<close>

definition wrapped_candidate :: "char \<Rightarrow> string" where
  "wrapped_candidate filler = ''a@b.cd'' @ replicate 4294967296 filler"

section \<open>The loops, characterised on lists\<close>

text \<open>
  The recursion equations of the loops are unconditional, so they are unfolded by hand,
  one iteration at a time. The string \<open>s\<close> the function reads is split into the part the
  loop has passed, the part \<open>xs\<close> it still has to visit, and a rest \<open>r\<close> behind the index
  \<^verbatim>\<open>len\<close> that no loop reaches; the inductions are on \<open>xs\<close>.
\<close>

declare scan_loop.simps [simp del] local_dots_loop.simps [simp del] last_dot_loop.simps [simp del]
  domain_dots_loop.simps [simp del] local_chars_loop.simps [simp del] domain_chars_loop.simps [simp del]

lemma peek_middle: "i = int (length u) \<Longrightarrow> peek (u @ x # r) i = Some x"
  by (simp add: peek_def)

lemma peek_domain_middle:
  "at_pos = int (length l) \<Longrightarrow> j = int (length u) \<Longrightarrow>
   peek_domain (l @ a # u @ x # r) at_pos j = Some x"
proof -
  assume "at_pos = int (length l)" "j = int (length u)"
  then have "peek ((l @ a # u) @ x # r) (at_pos + 1 + j) = Some x"
    by (intro peek_middle) simp
  then show ?thesis by (simp add: peek_domain_def)
qed

subsection \<open>The scan for the separator and for white space\<close>

lemma scan_loop_space:
  "list_ex isspace xs \<Longrightarrow> s = u @ xs @ r \<Longrightarrow> i = int (length u) \<Longrightarrow>
   len = i + int (length xs) \<Longrightarrow>
   scan_loop s len i ap ac = Some (Return False)"
proof (induction xs arbitrary: u i ap ac)
  case Nil
  then show ?case by simp
next
  case (Cons x xs)
  have pk: "peek s i = Some x"
    using Cons.prems by (simp add: peek_middle)
  have lt: "i < len" using Cons.prems by simp
  show ?case
  proof (cases "isspace x")
    case True
    then show ?thesis
      by (subst scan_loop.simps) (simp add: pk lt)
  next
    case False
    with Cons.prems have ex: "list_ex isspace xs" by simp
    have step: "scan_loop s len (i + 1) ap' ac' = Some (Return False)" for ap' ac'
      using Cons.prems by (intro Cons.IH [OF ex, of "u @ [x]"]) simp_all
    show ?thesis
      by (subst scan_loop.simps) (simp add: pk lt False step Let_def)
  qed
qed

lemma scan_loop_clean:
  "\<not> list_ex isspace xs \<Longrightarrow> s = u @ xs @ r \<Longrightarrow> i = int (length u) \<Longrightarrow>
   len = i + int (length xs) \<Longrightarrow>
   \<exists>p. scan_loop s len i ap ac = Some (Next (p, ac + int (count_list xs (CHR ''@'')))) \<and>
       (if CHR ''@'' \<in> set xs
        then i \<le> p \<and> p < len \<and> s ! nat p = CHR ''@''
        else p = ap)"
proof (induction xs arbitrary: u i ap ac)
  case Nil
  then show ?case by (subst scan_loop.simps) simp
next
  case (Cons x xs)
  from Cons.prems have nx: "\<not> isspace x" and nxs: "\<not> list_ex isspace xs" by simp_all
  have pk: "peek s i = Some x"
    using Cons.prems by (simp add: peek_middle)
  have lt: "i < len" using Cons.prems by simp
  have here: "s ! nat i = x"
    using Cons.prems by simp
  define ap' where "ap' = (if x = CHR ''@'' then i else ap)"
  define ac' where "ac' = (if x = CHR ''@'' then ac + 1 else ac)"
  have "\<exists>p. scan_loop s len (i + 1) ap' ac'
           = Some (Next (p, ac' + int (count_list xs (CHR ''@'')))) \<and>
       (if CHR ''@'' \<in> set xs
        then i + 1 \<le> p \<and> p < len \<and> s ! nat p = CHR ''@''
        else p = ap')"
    using Cons.prems by (intro Cons.IH [OF nxs, of "u @ [x]"]) simp_all
  then obtain p where
    run: "scan_loop s len (i + 1) ap' ac'
           = Some (Next (p, ac' + int (count_list xs (CHR ''@''))))"
    and pos: "if CHR ''@'' \<in> set xs
        then i + 1 \<le> p \<and> p < len \<and> s ! nat p = CHR ''@''
        else p = ap'"
    by blast
  have "scan_loop s len i ap ac
         = Some (Next (p, ac + int (count_list (x # xs) (CHR ''@''))))"
    by (subst scan_loop.simps) (simp add: pk lt nx Let_def run [unfolded ap'_def ac'_def] ac'_def)
  moreover have "if CHR ''@'' \<in> set (x # xs)
        then i \<le> p \<and> p < len \<and> s ! nat p = CHR ''@''
        else p = ap"
    using pos lt here by (auto simp: ap'_def split: if_splits)
  ultimately show ?case by blast
qed

subsection \<open>Adjacent dots\<close>

lemma local_dots_loop_eq:
  "s = u @ xs @ r \<Longrightarrow> i = int (length u) \<Longrightarrow> at_pos = i + int (length xs) \<Longrightarrow>
   local_dots_loop s at_pos i = Some (if consecutive_dots xs then Return False else Next ())"
proof (induction xs arbitrary: u i rule: consecutive_dots.induct)
  case (1 a b cs)
  have lt: "i < at_pos - 1" using "1.prems" by simp
  have pa: "peek s i = Some a"
    using "1.prems" by (simp add: peek_middle)
  have pb: "peek s (i + 1) = Some b"
    using "1.prems" peek_middle [of "i + 1" "u @ [a]" b "cs @ r"] by simp
  have step: "local_dots_loop s at_pos (i + 1)
      = Some (if consecutive_dots (b # cs) then Return False else Next ())"
    using "1.prems" by (intro "1.IH" [of "u @ [a]"]) simp_all
  show ?case
    by (subst local_dots_loop.simps) (simp add: lt pa pb step)
next
  case (2 a)
  then show ?case by (subst local_dots_loop.simps) simp
next
  case 3
  then show ?case by (subst local_dots_loop.simps) simp
qed

lemma domain_dots_loop_eq:
  "s = l @ a # u @ xs @ r \<Longrightarrow> at_pos = int (length l) \<Longrightarrow> i = int (length u) \<Longrightarrow>
   domain_len = i + int (length xs) \<Longrightarrow>
   domain_dots_loop s at_pos domain_len i
     = Some (if consecutive_dots xs then Return False else Next ())"
proof (induction xs arbitrary: u i rule: consecutive_dots.induct)
  case (1 x y cs)
  have lt: "i < domain_len - 1" using "1.prems" by simp
  have pa: "peek_domain s at_pos i = Some x"
    using "1.prems" by (simp add: peek_domain_middle)
  have pb: "peek_domain s at_pos (i + 1) = Some y"
    using "1.prems" peek_domain_middle [of at_pos l "i + 1" "u @ [x]" a y "cs @ r"] by simp
  have step: "domain_dots_loop s at_pos domain_len (i + 1)
      = Some (if consecutive_dots (y # cs) then Return False else Next ())"
    using "1.prems" by (intro "1.IH" [of "u @ [x]"]) simp_all
  show ?case
    by (subst domain_dots_loop.simps) (simp add: lt pa pb step)
next
  case (2 x)
  then show ?case by (subst domain_dots_loop.simps) simp
next
  case 3
  then show ?case by (subst domain_dots_loop.simps) simp
qed

subsection \<open>Character classes\<close>

lemma local_chars_loop_eq:
  "s = u @ xs @ r \<Longrightarrow> i = int (length u) \<Longrightarrow> at_pos = i + int (length xs) \<Longrightarrow>
   local_chars_loop s at_pos i
     = Some (if list_all local_char_ok xs then Next () else Return False)"
proof (induction xs arbitrary: u i)
  case Nil
  then show ?case by (subst local_chars_loop.simps) simp
next
  case (Cons x xs)
  have lt: "i < at_pos" using Cons.prems by simp
  have pk: "peek s i = Some x"
    using Cons.prems by (simp add: peek_middle)
  have step: "local_chars_loop s at_pos (i + 1)
      = Some (if list_all local_char_ok xs then Next () else Return False)"
    using Cons.prems by (intro Cons.IH [of "u @ [x]"]) simp_all
  show ?case
    by (subst local_chars_loop.simps) (auto simp add: lt pk step local_char_ok_def)
qed

lemma domain_chars_loop_eq:
  "s = l @ a # u @ xs @ r \<Longrightarrow> at_pos = int (length l) \<Longrightarrow> i = int (length u) \<Longrightarrow>
   domain_len = i + int (length xs) \<Longrightarrow>
   domain_chars_loop s at_pos domain_len i
     = Some (if list_all domain_char_ok xs then Next () else Return False)"
proof (induction xs arbitrary: u i)
  case Nil
  then show ?case by (subst domain_chars_loop.simps) simp
next
  case (Cons x xs)
  have lt: "i < domain_len" using Cons.prems by simp
  have pk: "peek_domain s at_pos i = Some x"
    using Cons.prems by (simp add: peek_domain_middle)
  have step: "domain_chars_loop s at_pos domain_len (i + 1)
      = Some (if list_all domain_char_ok xs then Next () else Return False)"
    using Cons.prems by (intro Cons.IH [of "u @ [x]"]) simp_all
  show ?case
    by (subst domain_chars_loop.simps) (auto simp add: lt pk step domain_char_ok_def)
qed

subsection \<open>The last dot of the domain\<close>

lemma tld_Cons_in: "CHR ''.'' \<in> set xs \<Longrightarrow> tld (x # xs) = tld xs"
  by (simp add: tld_def takeWhile_append1)

lemma tld_Cons_dot: "CHR ''.'' \<notin> set xs \<Longrightarrow> tld (CHR ''.'' # xs) = xs"
proof -
  assume "CHR ''.'' \<notin> set xs"
  then have "takeWhile (\<lambda>c. c \<noteq> CHR ''.'') (rev xs @ [CHR ''.'']) = rev xs"
    by (subst takeWhile_append2) auto
  then show ?thesis by (simp add: tld_def)
qed

lemma last_dot_loop_eq:
  "s = l @ a # u @ xs @ r \<Longrightarrow> at_pos = int (length l) \<Longrightarrow> i = int (length u) \<Longrightarrow>
   domain_len = i + int (length xs) \<Longrightarrow>
   last_dot_loop s at_pos domain_len i ldp dc
     = Some (if CHR ''.'' \<in> set xs then domain_len - 1 - int (length (tld xs)) else ldp,
             dc + int (count_list xs (CHR ''.'')))"
proof (induction xs arbitrary: u i ldp dc)
  case Nil
  then show ?case by (subst last_dot_loop.simps) simp
next
  case (Cons x xs)
  have lt: "i < domain_len" using Cons.prems by simp
  have pk: "peek_domain s at_pos i = Some x"
    using Cons.prems by (simp add: peek_domain_middle)
  have step: "last_dot_loop s at_pos domain_len (i + 1) ldp' dc'
      = Some (if CHR ''.'' \<in> set xs then domain_len - 1 - int (length (tld xs)) else ldp',
             dc' + int (count_list xs (CHR ''.'')))" for ldp' dc'
    using Cons.prems by (intro Cons.IH [of "u @ [x]"]) simp_all
  have unfold: "last_dot_loop s at_pos domain_len i ldp dc =
      (if x = CHR ''.'' then last_dot_loop s at_pos domain_len (i + 1) i (dc + 1)
       else last_dot_loop s at_pos domain_len (i + 1) ldp dc)"
    by (subst last_dot_loop.simps) (simp add: lt pk)
  have "last_dot_loop s at_pos domain_len i ldp dc =
      Some (if CHR ''.'' \<in> set xs then domain_len - 1 - int (length (tld xs))
            else if x = CHR ''.'' then i else ldp,
            (if x = CHR ''.'' then dc + 1 else dc) + int (count_list xs (CHR ''.'')))"
    by (simp add: unfold step)
  also have "\<dots> =
      Some (if CHR ''.'' \<in> set (x # xs) then domain_len - 1 - int (length (tld (x # xs))) else ldp,
            dc + int (count_list (x # xs) (CHR ''.'')))"
    using Cons.prems(3,4) by (auto simp add: tld_Cons_in tld_Cons_dot)
  finally show ?case .
qed

subsection \<open>The edge tests\<close>

lemma starts_with_hd: "xs \<noteq> [] \<Longrightarrow> starts_with A xs \<longleftrightarrow> hd xs \<in> A"
  by (cases xs) (simp_all add: starts_with_def)

lemma ends_with_last: "xs \<noteq> [] \<Longrightarrow> ends_with A xs \<longleftrightarrow> last xs \<in> A"
  by (simp add: ends_with_def starts_with_hd hd_rev)

lemma int_length_butlast: "xs \<noteq> [] \<Longrightarrow> int (length (butlast xs)) = int (length xs) - 1"
  by (cases xs rule: rev_cases) simp_all

lemma peek_first: "l \<noteq> [] \<Longrightarrow> peek (l @ r) 0 = Some (hd l)"
  by (cases l) (simp_all add: peek_def)

lemma peek_last: "l \<noteq> [] \<Longrightarrow> i = int (length l) - 1 \<Longrightarrow> peek (l @ r) i = Some (last l)"
proof -
  assume l: "l \<noteq> []" and i: "i = int (length l) - 1"
  have "peek (butlast l @ last l # r) i = Some (last l)"
    using l i by (intro peek_middle) (simp add: int_length_butlast del: length_butlast)
  moreover have "butlast l @ last l # r = l @ r"
    using l append_butlast_last_id [of l] by (metis append_Cons append_Nil append_assoc)
  ultimately show ?thesis by simp
qed

lemma peek_domain_first:
  "d \<noteq> [] \<Longrightarrow> at_pos = int (length l) \<Longrightarrow> peek_domain (l @ a # d @ r) at_pos 0 = Some (hd d)"
proof -
  assume d: "d \<noteq> []" and at_pos: "at_pos = int (length l)"
  have "peek_domain (l @ a # [] @ hd d # tl d @ r) at_pos 0 = Some (hd d)"
    using at_pos by (intro peek_domain_middle) simp_all
  moreover have "hd d # tl d @ r = d @ r"
    using d by (cases d) simp_all
  ultimately show ?thesis by simp
qed

lemma peek_domain_last:
  "d \<noteq> [] \<Longrightarrow> at_pos = int (length l) \<Longrightarrow> j = int (length d) - 1 \<Longrightarrow>
   peek_domain (l @ a # d @ r) at_pos j = Some (last d)"
proof -
  assume d: "d \<noteq> []" and at_pos: "at_pos = int (length l)" and j: "j = int (length d) - 1"
  have "peek_domain (l @ a # butlast d @ last d # r) at_pos j = Some (last d)"
    using at_pos j d by (intro peek_domain_middle) (simp_all add: int_length_butlast del: length_butlast)
  moreover have "butlast d @ last d # r = d @ r"
    using d append_butlast_last_id [of d] by (metis append_Cons append_Nil append_assoc)
  ultimately show ?thesis by simp
qed

lemma local_edge_is_dot_eq:
  "l \<noteq> [] \<Longrightarrow> at_pos = int (length l) \<Longrightarrow>
   local_edge_is_dot (l @ r) at_pos
     = Some (starts_with {CHR ''.''} l \<or> ends_with {CHR ''.''} l)"
  by (simp add: local_edge_is_dot_def peek_first peek_last starts_with_hd ends_with_last)

lemma domain_edge_eq:
  "d \<noteq> [] \<Longrightarrow> at_pos = int (length l) \<Longrightarrow> domain_len = int (length d) \<Longrightarrow>
   domain_edge_is_dot_or_hyphen (l @ a # d @ r) at_pos domain_len
     = Some (starts_with {CHR ''.'', CHR ''-''} d \<or> ends_with {CHR ''.'', CHR ''-''} d)"
  by (simp add: domain_edge_is_dot_or_hyphen_def peek_domain_first peek_domain_last
      starts_with_hd ends_with_last)

lemma validate_domain_eq:
  assumes s: "s = l @ a # d @ r" and d: "d \<noteq> []"
    and at_pos: "at_pos = int (length l)" and len: "len = int (length l) + 1 + int (length d)"
  shows "validate_domain s len at_pos =
    Some (\<not> starts_with {CHR ''.'', CHR ''-''} d \<and> \<not> ends_with {CHR ''.'', CHR ''-''} d \<and>
          CHR ''.'' \<in> set d \<and> 2 \<le> length (tld d) \<and> \<not> consecutive_dots d \<and>
          list_all local_char_ok l \<and> list_all domain_char_ok d)"
proof -
  have dl: "len - at_pos - 1 = int (length d)"
    using at_pos len by simp
  have edge: "domain_edge_is_dot_or_hyphen s at_pos (int (length d))
      = Some (starts_with {CHR ''.'', CHR ''-''} d \<or> ends_with {CHR ''.'', CHR ''-''} d)"
    unfolding s using d at_pos by (intro domain_edge_eq) simp_all
  have dots: "last_dot_loop s at_pos (int (length d)) 0 (- 1) 0
      = Some (if CHR ''.'' \<in> set d then int (length d) - 1 - int (length (tld d)) else - 1,
              int (count_list d (CHR ''.'')))"
    using last_dot_loop_eq [of s l a "[]" d r at_pos 0 "int (length d)" "- 1" 0] s at_pos by simp
  have dd: "domain_dots_loop s at_pos (int (length d)) 0
      = Some (if consecutive_dots d then Return False else Next ())"
    using domain_dots_loop_eq [of s l a "[]" d r at_pos 0 "int (length d)"] s at_pos by simp
  have lc: "local_chars_loop s at_pos 0
      = Some (if list_all local_char_ok l then Next () else Return False)"
    using local_chars_loop_eq [of s "[]" l "a # d @ r" 0 at_pos] s at_pos by simp
  have dc: "domain_chars_loop s at_pos (int (length d)) 0
      = Some (if list_all domain_char_ok d then Next () else Return False)"
    using domain_chars_loop_eq [of s l a "[]" d r at_pos 0 "int (length d)"] s at_pos by simp
  show ?thesis
    unfolding validate_domain_def Let_def dl edge dots dd lc dc
    by (auto simp add: count_list_0_iff)
qed

section \<open>The function as a conjunction of checks\<close>

lemma separator_position_split:
  "CHR ''@'' \<notin> set l \<Longrightarrow> separator_position (l @ CHR ''@'' # d) = length l"
proof -
  assume "CHR ''@'' \<notin> set l"
  then have "takeWhile (\<lambda>c. c \<noteq> CHR ''@'') (l @ CHR ''@'' # d) = l"
    by (subst takeWhile_append2) auto
  then show ?thesis by (simp add: separator_position_def)
qed

lemma local_part_split: "CHR ''@'' \<notin> set l \<Longrightarrow> local_part (l @ CHR ''@'' # d) = l"
  by (simp add: local_part_def separator_position_split)

lemma domain_part_split: "CHR ''@'' \<notin> set l \<Longrightarrow> domain_part (l @ CHR ''@'' # d) = d"
  by (simp add: domain_part_def separator_position_split)

lemma one_separator_split:
  assumes "count_list s (CHR ''@'') = 1"
  shows "\<exists>l d. s = l @ CHR ''@'' # d \<and> CHR ''@'' \<notin> set l \<and> CHR ''@'' \<notin> set d"
proof -
  from assms have "CHR ''@'' \<in> set s"
    using count_list_0_iff [of s "CHR ''@''"] by auto
  then obtain l d where s: "s = l @ CHR ''@'' # d"
    by (auto simp: in_set_conv_decomp)
  with assms have "count_list l (CHR ''@'') = 0" "count_list d (CHR ''@'') = 0"
    by simp_all
  then have "CHR ''@'' \<notin> set l" "CHR ''@'' \<notin> set d"
    by (simp_all add: count_list_0_iff)
  with s show ?thesis by blast
qed

lemma separator_index:
  assumes s: "s = l @ CHR ''@'' # d" and l: "CHR ''@'' \<notin> set l" and d: "CHR ''@'' \<notin> set d"
    and p: "0 \<le> p" "p < int (length s)" "s ! nat p = CHR ''@''"
  shows "p = int (length l)"
proof -
  have "nat p = length l"
  proof (rule ccontr)
    assume ne: "nat p \<noteq> length l"
    show False
    proof (cases "nat p < length l")
      case True
      then have "s ! nat p = l ! nat p" by (simp add: s nth_append)
      with True l p(3) show False by (metis nth_mem)
    next
      case False
      with ne have gt: "length l < nat p" by simp
      define k where "k = nat p - length l - 1"
      have k: "k < length d" using gt p s by (auto simp: k_def)
      have "s ! nat p = d ! k"
        using gt by (simp add: s nth_append k_def nth_Cons')
      with k d p(3) show False by (metis nth_mem)
    qed
  qed
  with p(1) show ?thesis by simp
qed

lemma validate_body_split:
  assumes t: "t = l @ CHR ''@'' # d" and l: "CHR ''@'' \<notin> set l" and d: "CHR ''@'' \<notin> set d"
    and ws: "\<not> list_ex isspace t" and range: "length_in_range t"
  shows "validate_body (t @ r) (int (length t)) =
    Some (l \<noteq> [] \<and> d \<noteq> [] \<and>
          \<not> starts_with {CHR ''.''} l \<and> \<not> ends_with {CHR ''.''} l \<and> \<not> consecutive_dots l \<and>
          \<not> starts_with {CHR ''.'', CHR ''-''} d \<and> \<not> ends_with {CHR ''.'', CHR ''-''} d \<and>
          CHR ''.'' \<in> set d \<and> 2 \<le> length (tld d) \<and> \<not> consecutive_dots d \<and>
          list_all local_char_ok l \<and> list_all domain_char_ok d)"
proof -
  define s where "s = t @ r"
  define len where "len = int (length t)"
  have s: "s = l @ CHR ''@'' # d @ r"
    by (simp add: s_def t)
  have cnt: "count_list t (CHR ''@'') = 1"
    using t l d by simp
  have mem: "CHR ''@'' \<in> set t" using t by simp
  obtain p where run: "scan_loop s len 0 (- 1) 0 = Some (Next (p, 1))"
    and p: "0 \<le> p" "p < len" "s ! nat p = CHR ''@''"
    using scan_loop_clean [of t s "[]" r 0 len "- 1" 0] ws mem cnt by (auto simp: len_def s_def)
  have "nat p < length t"
    using p by (simp add: len_def)
  then have "t ! nat p = CHR ''@''"
    using p(3) by (simp add: s_def nth_append)
  then have at_pos: "p = int (length l)"
    using t l d p by (intro separator_index [of t l d p]) (simp_all add: len_def)
  have in_range: "\<not> (len < MIN_EMAIL_LENGTH \<or> len > MAX_EMAIL_LENGTH)"
    using range by (simp add: length_in_range_def len_def)
  have start: "validate_body s len =
      (if p = 0 \<or> p = len - 1 then Some False
       else do {
              edge \<leftarrow> local_edge_is_dot s p;
              if edge then Some False
              else do {
                r \<leftarrow> local_dots_loop s p 0;
                case r of
                  Return b \<Rightarrow> Some b
                | Next _ \<Rightarrow> validate_domain s len p
              }
            })"
    using in_range by (simp add: validate_body_def run)
  have result: "validate_body s len =
    Some (l \<noteq> [] \<and> d \<noteq> [] \<and>
          \<not> starts_with {CHR ''.''} l \<and> \<not> ends_with {CHR ''.''} l \<and> \<not> consecutive_dots l \<and>
          \<not> starts_with {CHR ''.'', CHR ''-''} d \<and> \<not> ends_with {CHR ''.'', CHR ''-''} d \<and>
          CHR ''.'' \<in> set d \<and> 2 \<le> length (tld d) \<and> \<not> consecutive_dots d \<and>
          list_all local_char_ok l \<and> list_all domain_char_ok d)"
  proof (cases "l = [] \<or> d = []")
    case True
    then have "p = 0 \<or> p = len - 1"
      using at_pos t by (auto simp: len_def)
    with True show ?thesis by (auto simp: start)
  next
    case False
    then have ne: "l \<noteq> []" "d \<noteq> []" by simp_all
    have inside: "\<not> (p = 0 \<or> p = len - 1)"
      using ne at_pos t by (auto simp: len_def)
    have edge: "local_edge_is_dot s p
        = Some (starts_with {CHR ''.''} l \<or> ends_with {CHR ''.''} l)"
      unfolding s using ne at_pos by (intro local_edge_is_dot_eq) simp_all
    have dots: "local_dots_loop s p 0 = Some (if consecutive_dots l then Return False else Next ())"
      using local_dots_loop_eq [of s "[]" l "CHR ''@'' # d @ r" 0 p] s at_pos by simp
    have dom: "validate_domain s len p =
        Some (\<not> starts_with {CHR ''.'', CHR ''-''} d \<and> \<not> ends_with {CHR ''.'', CHR ''-''} d \<and>
          CHR ''.'' \<in> set d \<and> 2 \<le> length (tld d) \<and> \<not> consecutive_dots d \<and>
          list_all local_char_ok l \<and> list_all domain_char_ok d)"
      using s ne at_pos t
      by (intro validate_domain_eq [of s l "CHR ''@''" d r]) (simp_all add: len_def)
    show ?thesis
      unfolding start using inside ne by (auto simp add: edge dots dom)
  qed
  then show ?thesis by (simp add: s_def len_def)
qed

text \<open>
  The body, run with a length \<^verbatim>\<open>len\<close> that is at most the length of the string, decides
  on the first \<^verbatim>\<open>len\<close> characters alone.
\<close>

lemma validate_body_eq:
  "validate_body (t @ r) (int (length t)) = Some (passes_all_tests t)"
proof (cases "length_in_range t")
  case False
  then show ?thesis
    by (auto simp add: validate_body_def passes_all_tests_def length_in_range_def)
next
  case range: True
  then have in_range: "\<not> (int (length t) < MIN_EMAIL_LENGTH \<or> int (length t) > MAX_EMAIL_LENGTH)"
    by (simp add: length_in_range_def)
  show ?thesis
  proof (cases "list_ex isspace t")
    case True
    have "scan_loop (t @ r) (int (length t)) 0 (- 1) 0 = Some (Return False)"
      using scan_loop_space [of t "t @ r" "[]" r 0 "int (length t)" "- 1" 0] True by simp
    with in_range True show ?thesis
      by (simp add: validate_body_def passes_all_tests_def check_no_whitespace_def)
  next
    case ws: False
    show ?thesis
    proof (cases "count_list t (CHR ''@'') = 1")
      case False
      obtain p where "scan_loop (t @ r) (int (length t)) 0 (- 1) 0
          = Some (Next (p, int (count_list t (CHR ''@''))))"
        using scan_loop_clean [of t "t @ r" "[]" r 0 "int (length t)" "- 1" 0] ws by auto
      with in_range False show ?thesis
        by (simp add: validate_body_def passes_all_tests_def check_one_separator_def)
    next
      case True
      then obtain l d where t: "t = l @ CHR ''@'' # d"
        and l: "CHR ''@'' \<notin> set l" and d: "CHR ''@'' \<notin> set d"
        using one_separator_split by blast
      have sep: "check_separator_inside (l @ CHR ''@'' # d) \<longleftrightarrow> l \<noteq> [] \<and> d \<noteq> []"
        using l by (auto simp add: check_separator_inside_def separator_position_split)
      show ?thesis
        unfolding validate_body_split [OF t l d ws range]
        using range ws True l
        by (simp add: passes_all_tests_def sep check_no_whitespace_def check_one_separator_def
            check_local_edges_def check_local_dots_def check_domain_edges_def
            check_domain_has_dot_def check_tld_def check_domain_dots_def
            check_local_class_def check_domain_class_def
            t local_part_split domain_part_split)
    qed
  qed
qed

subsection \<open>The conversion of the length\<close>

lemma int_of_size_t_exact: "int n \<le> INT_MAX \<Longrightarrow> int_of_size_t n = int n"
  by (simp add: int_of_size_t_def INT_MAX_def Let_def)

lemma int_of_size_t_le: "0 \<le> int_of_size_t n \<Longrightarrow> int_of_size_t n \<le> int n"
proof -
  have "int n mod 4294967296 \<le> int n"
    by (rule zmod_le_nonneg_dividend) simp
  moreover have "0 \<le> int n mod 4294967296" by simp
  moreover assume "0 \<le> int_of_size_t n"
  ultimately show ?thesis
    by (auto simp add: int_of_size_t_def INT_MAX_def Let_def split: if_splits)
qed

text \<open>
  The function on every string: it decides on the first \<^verbatim>\<open>len\<close> characters, where \<^verbatim>\<open>len\<close> is
  the converted length, and on the whole string if its length is at most \<^verbatim>\<open>INT_MAX\<close>.
\<close>

lemma validate_eq_prefix:
  "validate s = Some (passes_all_tests (take (nat (int_of_size_t (length s))) s))"
proof -
  define len where "len = int_of_size_t (length s)"
  define t where "t = take (nat len) s"
  show ?thesis
  proof (cases "len < MIN_EMAIL_LENGTH \<or> len > MAX_EMAIL_LENGTH")
    case False
    then have pos: "0 \<le> len" by (simp add: MIN_EMAIL_LENGTH_def)
    then have "len \<le> int (length s)"
      unfolding len_def by (rule int_of_size_t_le)
    with pos have lt: "int (length t) = len"
      by (simp add: t_def)
    have "validate_body (t @ drop (nat len) s) (int (length t)) = Some (passes_all_tests t)"
      by (rule validate_body_eq)
    then show ?thesis
      by (simp add: validate_def len_def [symmetric] lt t_def [symmetric]) (simp add: t_def)
  next
    case True
    have "\<not> length_in_range t"
    proof (cases "len < MIN_EMAIL_LENGTH")
      case True
      then have "int (length t) < MIN_EMAIL_LENGTH"
        by (simp add: t_def MIN_EMAIL_LENGTH_def)
      then show ?thesis by (simp add: length_in_range_def)
    next
      case False
      with True have big: "len > MAX_EMAIL_LENGTH" by simp
      then have pos: "0 \<le> len" by (simp add: MAX_EMAIL_LENGTH_def)
      then have "len \<le> int (length s)"
        unfolding len_def by (rule int_of_size_t_le)
      with pos have "int (length t) = len"
        by (simp add: t_def)
      with big show ?thesis by (simp add: length_in_range_def)
    qed
    with True show ?thesis
      by (simp add: validate_def validate_body_def len_def [symmetric] t_def [symmetric]
          passes_all_tests_def)
  qed
qed

lemma validate_eq:
  "int (length s) \<le> INT_MAX \<Longrightarrow> validate s = Some (passes_all_tests s)"
  by (simp add: validate_eq_prefix int_of_size_t_exact)

lemma length_in_range_INT_MAX: "length_in_range s \<Longrightarrow> int (length s) \<le> INT_MAX"
  by (simp add: length_in_range_def MAX_EMAIL_LENGTH_def INT_MAX_def)

subsection \<open>The character classes, written out\<close>

lemma isalpha_iff: "isalpha c \<longleftrightarrow> c \<in> set ascii_letters"
proof -
  have "\<forall>c \<in> set Enum.enum. isalpha c \<longleftrightarrow> c \<in> set ascii_letters"
    by code_simp
  then show ?thesis by (simp add: UNIV_enum [symmetric])
qed

lemma isdigit_iff: "isdigit c \<longleftrightarrow> c \<in> set ascii_digits"
proof -
  have "\<forall>c \<in> set Enum.enum. isdigit c \<longleftrightarrow> c \<in> set ascii_digits"
    by code_simp
  then show ?thesis by (simp add: UNIV_enum [symmetric])
qed

lemma isspace_iff: "isspace c \<longleftrightarrow> c \<in> set whitespace_characters"
proof -
  have "\<forall>c \<in> set Enum.enum. isspace c \<longleftrightarrow> c \<in> set whitespace_characters"
    by code_simp
  then show ?thesis by (simp add: UNIV_enum [symmetric])
qed

section \<open>Properties of the validator\<close>

lemma is_valid_email_Ptr: "is_valid_email (Ptr c) = validate (chars c)"
  by (simp add: is_valid_email_def)

lemma chars_cstr: "CHR 0x00 \<notin> set s \<Longrightarrow> chars (cstr s) = s"
  by (simp add: cstr.rep_eq is_cstring_def)

lemma conjunction_iff: "conjunction ps s \<longleftrightarrow> (\<forall>p \<in> set ps. p s)"
  by (induction ps) auto

lemma check_length_in_range: "check_length s \<Longrightarrow> length_in_range s"
  by (simp add: check_length_def length_in_range_def)

subsection \<open>The candidate of 256 characters\<close>

lemma address_256_chars: "chars (cstr address_256) = address_256"
  by (simp add: chars_cstr address_256_def)

lemma address_256_length: "length address_256 = 256"
  by (simp add: address_256_def)

lemma address_256_accepted: "validate address_256 = Some True"
  by code_simp

lemma address_256_check_length: "\<not> check_length address_256"
  by (simp add: check_length_def address_256_length MAX_EMAIL_LENGTH_def)

subsection \<open>The candidates of more than \<open>2^32\<close> bytes\<close>

lemma wrapped_candidate_length: "length (wrapped_candidate f) = 4294967302"
  by (simp add: wrapped_candidate_def)

lemma wrapped_candidate_len: "int_of_size_t (length (wrapped_candidate f)) = 6"
  by (simp add: wrapped_candidate_length int_of_size_t_def INT_MAX_def)

lemma wrapped_candidate_prefix: "take 6 (wrapped_candidate f) = ''a@b.cd''"
  by (simp add: wrapped_candidate_def)

lemma short_address_passes: "passes_all_tests ''a@b.cd''"
  by code_simp

lemma wrapped_candidate_accepted: "validate (wrapped_candidate f) = Some True"
  by (simp add: validate_eq_prefix wrapped_candidate_len wrapped_candidate_prefix
      short_address_passes)

lemma wrapped_candidate_chars:
  "f \<noteq> CHR 0x00 \<Longrightarrow> chars (cstr (wrapped_candidate f)) = wrapped_candidate f"
  by (rule chars_cstr) (auto simp add: wrapped_candidate_def)

lemma wrapped_candidate_set: "f \<in> set (wrapped_candidate f)"
  by (simp add: wrapped_candidate_def)

lemma count_list_replicate: "count_list (replicate n x) x = n"
  by (induction n) simp_all

subsection \<open>Candidates whose length fits an \<^verbatim>\<open>int\<close>\<close>

text \<open>
  Up to \<^verbatim>\<open>INT_MAX\<close> bytes the conversion of line 37 keeps the length, and the function
  does what its tests say: with the length bound as the code has it, the verdict is the
  conjunction of the checks in every order, and candidates of the wrong length, with
  white space, without exactly one separator or with a character outside the classes
  are rejected.
\<close>

lemma verdict_is_conjunction_with_code_bound:
  assumes "int (length (chars c)) \<le> INT_MAX"
    and "mset ps = mset (length_in_range # tl spec_checks)"
  shows "is_valid_email (Ptr c) = Some (conjunction ps (chars c))"
proof -
  from assms(2) have "set ps = set (length_in_range # tl spec_checks)"
    by (rule mset_eq_setD)
  then have "conjunction ps (chars c) = conjunction (length_in_range # tl spec_checks) (chars c)"
    by (simp add: conjunction_iff)
  with assms(1) show ?thesis
    by (simp add: is_valid_email_Ptr validate_eq passes_all_tests_def spec_checks_def)
qed

lemma length_outside_bounds_rejected:
  assumes "int (length (chars c)) \<le> INT_MAX"
    and "int (length (chars c)) < MIN_EMAIL_LENGTH \<or> int (length (chars c)) > MAX_EMAIL_LENGTH"
  shows "is_valid_email (Ptr c) = Some False"
  using assms
  by (auto simp add: is_valid_email_Ptr validate_eq passes_all_tests_def length_in_range_def)

lemma whitespace_rejected:
  assumes "int (length (chars c)) \<le> INT_MAX"
    and "ch \<in> set (chars c)" and "ch \<in> set whitespace_characters"
  shows "is_valid_email (Ptr c) = Some False"
proof -
  from assms(2,3) have "list_ex isspace (chars c)"
    by (auto simp add: list_ex_iff isspace_iff)
  with assms(1) show ?thesis
    by (simp add: is_valid_email_Ptr validate_eq passes_all_tests_def check_no_whitespace_def)
qed

lemma separator_count_rejected:
  assumes "int (length (chars c)) \<le> INT_MAX" and "count_list (chars c) (CHR ''@'') \<noteq> 1"
  shows "is_valid_email (Ptr c) = Some False"
  using assms
  by (simp add: is_valid_email_Ptr validate_eq passes_all_tests_def check_one_separator_def)

lemma parts_of_candidate:
  "check_one_separator s \<Longrightarrow> s = local_part s @ CHR ''@'' # domain_part s"
proof -
  assume "check_one_separator s"
  then obtain l d where s: "s = l @ CHR ''@'' # d" and l: "CHR ''@'' \<notin> set l"
    using one_separator_split [of s] by (auto simp: check_one_separator_def)
  show ?thesis
    using l by (subst (1 2 3) s) (simp add: local_part_split domain_part_split)
qed

lemma accepted_characters:
  assumes "int (length (chars c)) \<le> INT_MAX" and "is_valid_email (Ptr c) = Some True"
  shows "(\<forall>ch \<in> set (chars c).
            ch \<in> set ascii_letters \<or> ch \<in> set ascii_digits \<or>
            ch \<in> {CHR ''.'', CHR ''-'', CHR ''_'', CHR ''+'', CHR ''@''}) \<and>
         count_list (chars c) (CHR ''@'') = 1"
proof -
  from assms have v: "passes_all_tests (chars c)"
    by (simp add: is_valid_email_Ptr validate_eq)
  then have one: "check_one_separator (chars c)"
    and lc: "check_local_class (chars c)" and dc: "check_domain_class (chars c)"
    by (simp_all add: passes_all_tests_def)
  have parts: "set (chars c) = set (local_part (chars c)) \<union> {CHR ''@''} \<union> set (domain_part (chars c))"
    by (subst parts_of_candidate [OF one]) auto
  have "local_char_ok ch \<Longrightarrow>
      ch \<in> set ascii_letters \<or> ch \<in> set ascii_digits \<or>
      ch \<in> {CHR ''.'', CHR ''-'', CHR ''_'', CHR ''+'', CHR ''@''}" for ch
    by (auto simp add: local_char_ok_def isalnum_def isalpha_iff isdigit_iff)
  moreover have "domain_char_ok ch \<Longrightarrow>
      ch \<in> set ascii_letters \<or> ch \<in> set ascii_digits \<or>
      ch \<in> {CHR ''.'', CHR ''-'', CHR ''_'', CHR ''+'', CHR ''@''}" for ch
    by (auto simp add: domain_char_ok_def isalnum_def isalpha_iff isdigit_iff)
  ultimately have "\<forall>ch \<in> set (chars c).
            ch \<in> set ascii_letters \<or> ch \<in> set ascii_digits \<or>
            ch \<in> {CHR ''.'', CHR ''-'', CHR ''_'', CHR ''+'', CHR ''@''}"
    using lc dc unfolding parts
    by (auto simp add: check_local_class_def check_domain_class_def list_all_iff)
  with one show ?thesis
    by (simp add: check_one_separator_def)
qed

lemma domain_symbol_rejected:
  assumes "conjunction checks_other_than_domain_class (chars c)"
    and "CHR ''_'' \<in> set (domain_part (chars c)) \<or> CHR ''+'' \<in> set (domain_part (chars c))"
  shows "is_valid_email (Ptr c) = Some False"
proof -
  from assms(1) have "check_length (chars c)"
    by (simp add: checks_other_than_domain_class_def split: if_splits)
  then have fits: "int (length (chars c)) \<le> INT_MAX"
    by (intro length_in_range_INT_MAX check_length_in_range)
  have "\<not> domain_char_ok (CHR ''_'')" "\<not> domain_char_ok (CHR ''+'')"
    by (simp_all add: domain_char_ok_def isalnum_def isalpha_def isupper_def islower_def isdigit_def)
  with assms(2) have "\<not> check_domain_class (chars c)"
    by (auto simp add: check_domain_class_def list_all_iff)
  with fits show ?thesis
    by (simp add: is_valid_email_Ptr validate_eq passes_all_tests_def)
qed

section \<open>The claims\<close>

text \<open>
  Claim C1 says that for every non-null candidate the verdict of the code equals the
  short-circuit conjunction of the twelve checks of the specification. At the candidate
  \<open>address_256\<close> of 256 characters it does not: the code returns true and the conjunction
  is false, since check 2 excludes the maximum and the test of line 40 lets it pass.
\<close>

theorem sequential_checks_differ_at_256:
  "is_valid_email (Ptr (cstr address_256)) = Some True \<and>
   conjunction spec_checks (chars (cstr address_256)) = False"
  by (simp add: is_valid_email_Ptr address_256_chars address_256_accepted
      spec_checks_def address_256_check_length)

text \<open>
  Claim C2 says that every candidate longer than \<^verbatim>\<open>MAX_EMAIL_LENGTH\<close> is rejected. The code
  accepts the candidate of \<open>2^32 + 6\<close> bytes that starts with \<^verbatim>\<open>a@b.cd\<close>: line 37 converts
  its length to the \<^verbatim>\<open>int\<close> 6, which passes the test of line 40, and the loops read the
  first six characters only.
\<close>

theorem accepts_candidate_longer_than_maximum:
  "int (length (chars (cstr (wrapped_candidate (CHR ''x''))))) > MAX_EMAIL_LENGTH \<and>
   is_valid_email (Ptr (cstr (wrapped_candidate (CHR ''x'')))) = Some True"
  by (simp add: is_valid_email_Ptr wrapped_candidate_chars wrapped_candidate_accepted
      wrapped_candidate_length MAX_EMAIL_LENGTH_def)

text \<open>
  Claim C3 says that a candidate of exactly 256 characters is rejected. The code accepts
  one: the test of line 40 is \<^verbatim>\<open>len > MAX_EMAIL_LENGTH\<close>, which lets the length 256 pass,
  and the candidate \<open>address_256\<close> passes every later test.
\<close>

theorem accepts_candidate_of_length_256:
  "length (chars (cstr address_256)) = 256 \<and> is_valid_email (Ptr (cstr address_256)) = Some True"
  by (simp add: is_valid_email_Ptr address_256_chars address_256_accepted address_256_length)

text \<open>
  Claim C4 says that every candidate that holds a white-space character is rejected.
  The code accepts \<^verbatim>\<open>a@b.cd\<close> followed by \<open>2^32\<close> spaces: with the length converted to 6 (line
  37) the scan of lines 49 to 58 never reaches a space.
\<close>

theorem accepts_candidate_with_whitespace:
  "CHR '' '' \<in> set (chars (cstr (wrapped_candidate (CHR '' '')))) \<and>
   CHR '' '' \<in> set whitespace_characters \<and>
   is_valid_email (Ptr (cstr (wrapped_candidate (CHR '' '')))) = Some True"
  by (simp add: is_valid_email_Ptr wrapped_candidate_chars wrapped_candidate_accepted
      wrapped_candidate_set whitespace_characters_def)

text \<open>
  Claim C5 says that every candidate with no or with several \<^verbatim>\<open>@\<close> is rejected. The code
  accepts \<^verbatim>\<open>a@b.cd\<close> followed by \<open>2^32\<close> characters \<^verbatim>\<open>@\<close>: with the length converted to 6
  (line 37) the scan counts the first one only.
\<close>

theorem accepts_candidate_with_many_separators:
  "count_list (chars (cstr (wrapped_candidate (CHR ''@'')))) (CHR ''@'') = 4294967297 \<and>
   is_valid_email (Ptr (cstr (wrapped_candidate (CHR ''@'')))) = Some True"
  by (simp add: is_valid_email_Ptr wrapped_candidate_chars wrapped_candidate_accepted)
    (simp add: wrapped_candidate_def count_list_replicate)

text \<open>
  Claim C6. The length of the top-level domain is the only criterion on it: for every
  candidate that passes the eleven other checks, the function returns false when the
  text behind the last dot of the domain part has exactly one character and true when
  it has two or more; \<^verbatim>\<open>user@example.c\<close> is rejected.
\<close>

theorem tld_length_decides:
  assumes "conjunction checks_other_than_tld (chars c)"
  shows "(length (tld (domain_part (chars c))) = 1 \<longrightarrow> is_valid_email (Ptr c) = Some False) \<and>
         (2 \<le> length (tld (domain_part (chars c))) \<longrightarrow> is_valid_email (Ptr c) = Some True) \<and>
         is_valid_email (Ptr (cstr ''user@example.c'')) = Some False"
proof -
  have others: "check_length (chars c)" "check_no_whitespace (chars c)"
    "check_one_separator (chars c)" "check_separator_inside (chars c)"
    "check_local_edges (chars c)" "check_local_dots (chars c)" "check_domain_edges (chars c)"
    "check_domain_has_dot (chars c)" "check_domain_dots (chars c)"
    "check_local_class (chars c)" "check_domain_class (chars c)"
    using assms by (simp_all add: checks_other_than_tld_def split: if_splits)
  from others(1) have range: "length_in_range (chars c)"
    by (rule check_length_in_range)
  then have "int (length (chars c)) \<le> INT_MAX"
    by (rule length_in_range_INT_MAX)
  with others range
  have "is_valid_email (Ptr c) = Some (2 \<le> length (tld (domain_part (chars c))))"
    by (simp add: is_valid_email_Ptr validate_eq passes_all_tests_def check_tld_def)
  moreover have "is_valid_email (Ptr (cstr ''user@example.c'')) = Some False"
    by code_simp
  ultimately show ?thesis by simp
qed

text \<open>
  The theorem at \<^verbatim>\<open>user@example.c\<close> (one character, rejected) and \<^verbatim>\<open>user@example.co\<close> (two
  characters, accepted).
\<close>

theorem tld_length_decides_witness:
  "conjunction checks_other_than_tld (chars (cstr ''user@example.c'')) \<and>
   length (tld (domain_part (chars (cstr ''user@example.c'')))) = 1 \<and>
   is_valid_email (Ptr (cstr ''user@example.c'')) = Some False \<and>
   conjunction checks_other_than_tld (chars (cstr ''user@example.co'')) \<and>
   2 \<le> length (tld (domain_part (chars (cstr ''user@example.co'')))) \<and>
   is_valid_email (Ptr (cstr ''user@example.co'')) = Some True"
proof -
  have a: "conjunction checks_other_than_tld (chars (cstr ''user@example.c''))"
    by code_simp
  have b: "length (tld (domain_part (chars (cstr ''user@example.c'')))) = 1"
    by code_simp
  have c: "conjunction checks_other_than_tld (chars (cstr ''user@example.co''))"
    by code_simp
  have d: "2 \<le> length (tld (domain_part (chars (cstr ''user@example.co''))))"
    by code_simp
  from tld_length_decides [OF a] tld_length_decides [OF c] a b c d show ?thesis
    by simp
qed

text \<open>
  Claim C7, as amended. The character test of the domain part (lines 132 to 136) rejects
  underscores and plus signs: every candidate that satisfies the eleven other checks
  and whose domain part holds \<^verbatim>\<open>_\<close> or \<^verbatim>\<open>+\<close> is rejected.
\<close>

theorem domain_underscore_plus_rejected:
  "conjunction checks_other_than_domain_class (chars c) \<Longrightarrow>
   CHR ''_'' \<in> set (domain_part (chars c)) \<or> CHR ''+'' \<in> set (domain_part (chars c)) \<Longrightarrow>
   is_valid_email (Ptr c) = Some False"
  by (rule domain_symbol_rejected)

text \<open>The theorem at \<^verbatim>\<open>user@exa_mple.com\<close> and \<^verbatim>\<open>user@exa+mple.com\<close>.\<close>

theorem domain_underscore_plus_rejected_witness:
  "conjunction checks_other_than_domain_class (chars (cstr ''user@exa_mple.com'')) \<and>
   (CHR ''_'' \<in> set (domain_part (chars (cstr ''user@exa_mple.com''))) \<or>
    CHR ''+'' \<in> set (domain_part (chars (cstr ''user@exa_mple.com'')))) \<and>
   is_valid_email (Ptr (cstr ''user@exa_mple.com'')) = Some False \<and>
   conjunction checks_other_than_domain_class (chars (cstr ''user@exa+mple.com'')) \<and>
   (CHR ''_'' \<in> set (domain_part (chars (cstr ''user@exa+mple.com''))) \<or>
    CHR ''+'' \<in> set (domain_part (chars (cstr ''user@exa+mple.com'')))) \<and>
   is_valid_email (Ptr (cstr ''user@exa+mple.com'')) = Some False"
proof -
  have a: "conjunction checks_other_than_domain_class (chars (cstr ''user@exa_mple.com''))"
    by code_simp
  have b: "CHR ''_'' \<in> set (domain_part (chars (cstr ''user@exa_mple.com''))) \<or>
    CHR ''+'' \<in> set (domain_part (chars (cstr ''user@exa_mple.com'')))"
    by code_simp
  have c: "conjunction checks_other_than_domain_class (chars (cstr ''user@exa+mple.com''))"
    by code_simp
  have d: "CHR ''_'' \<in> set (domain_part (chars (cstr ''user@exa+mple.com''))) \<or>
    CHR ''+'' \<in> set (domain_part (chars (cstr ''user@exa+mple.com'')))"
    by code_simp
  from domain_underscore_plus_rejected [OF a b] domain_underscore_plus_rejected [OF c d] a b c d
  show ?thesis by simp
qed

text \<open>
  Claim C7 as stated asks for an accepted candidate that satisfies every other check
  and whose domain part holds an underscore or a plus sign. There is none.
\<close>

theorem no_accepted_domain_with_underscore_or_plus:
  "\<not> (\<exists>c. (CHR ''_'' \<in> set (domain_part (chars c)) \<or> CHR ''+'' \<in> set (domain_part (chars c))) \<and>
          conjunction checks_other_than_domain_class (chars c) \<and>
          is_valid_email (Ptr c) = Some True)"
  using domain_symbol_rejected by fastforce

text \<open>
  Claim C8. The function is total: for the null pointer it returns false, and for every
  string, the empty one and strings of arbitrary bytes and of any length included, it
  returns a boolean without reading outside the string (the result is never \<open>None\<close>). It
  writes to no memory but its own local variables, so its result is a function of the
  candidate alone, as the embedding has it.
\<close>

theorem is_valid_email_total:
  "is_valid_email NULL = Some False \<and>
   is_valid_email (Ptr (cstr [])) = Some False \<and>
   (\<exists>b. is_valid_email email = Some b)"
proof -
  have "is_valid_email (Ptr (cstr [])) = Some False"
    by code_simp
  moreover have "\<exists>b. is_valid_email email = Some b"
    by (cases email) (auto simp add: is_valid_email_def validate_eq_prefix)
  ultimately show ?thesis
    by (simp add: is_valid_email_def)
qed

text \<open>
  Claim C9 says that every character of an accepted candidate is an ASCII letter, an
  ASCII digit or one of \<^verbatim>\<open>.\<close>, \<^verbatim>\<open>-\<close>, \<^verbatim>\<open>_\<close>, \<^verbatim>\<open>+\<close> and \<^verbatim>\<open>@\<close>. The code accepts \<^verbatim>\<open>a@b.cd\<close> followed by
  \<open>2^32\<close> exclamation marks: with the length converted to 6 (line 37) the loops of lines
  123 to 136 never reach them.
\<close>

theorem accepts_candidate_with_other_characters:
  "is_valid_email (Ptr (cstr (wrapped_candidate (CHR ''!'')))) = Some True \<and>
   CHR ''!'' \<in> set (chars (cstr (wrapped_candidate (CHR ''!'')))) \<and>
   CHR ''!'' \<notin> set ascii_letters \<union> set ascii_digits \<union>
     {CHR ''.'', CHR ''-'', CHR ''_'', CHR ''+'', CHR ''@''}"
  by (simp add: is_valid_email_Ptr wrapped_candidate_chars wrapped_candidate_accepted
      wrapped_candidate_set ascii_letters_def ascii_digits_def)

text \<open>
  Claim C10. Only the dot is barred at the edges of the local part: the candidates
  \<^verbatim>\<open>user-@example.com\<close> (local part ending with a hyphen), \<^verbatim>\<open>_user@example.com\<close> (beginning
  with an underscore) and \<^verbatim>\<open>+user_@example.com\<close> (beginning with a plus sign, ending with an
  underscore) are accepted.
\<close>

theorem local_part_edge_symbols_accepted:
  "is_valid_email (Ptr (cstr ''user-@example.com'')) = Some True \<and>
   is_valid_email (Ptr (cstr ''_user@example.com'')) = Some True \<and>
   is_valid_email (Ptr (cstr ''+user_@example.com'')) = Some True"
  by code_simp

end
